theory Spec2Isabelle
  imports Complex_Main "HOL-Library.Word" "HOL-Library.Sublist"
begin

section \<open>The session transport: \<open>WebSocketService\<close> (services/api.ts)\<close>

text \<open>
  The service object holds a reference to its current socket, the id of its reconnect
  timer and a map from event names to arrays of handlers. Everything else the class
  touches belongs to the browser: the \<open>WebSocket\<close> objects it has constructed, the
  pending timeouts, the console. A \<open>world\<close> is the service together with that part of
  the browser.

  A socket is named by the order of its construction. Every socket that \<open>connect()\<close>
  constructs gets the same four callbacks, and each callback closes over the service
  (\<open>this\<close>), not over the socket: a socket that the service no longer references still
  runs them when the browser delivers an event to it.

  A handler is a JavaScript function object; \<open>indexOf\<close> compares handlers by identity, so
  a handler is modelled by a number that names it. What a handler does when it is called
  is outside the class. The only thing the class can observe is whether the call returns
  or throws, which is the parameter \<open>thr\<close> of the functions below (\<open>thr h d\<close>: handler
  \<open>h\<close> throws when called with \<open>d\<close>). Handlers are taken not to call back into the
  service while they run, as is the case for the handlers that \<open>App\<close> registers.
\<close>

datatype ready_state = CONNECTING | OPEN | CLOSING | CLOSED

text \<open>
  The value that \<open>JSON.parse\<close> returns, as far as \<open>onmessage\<close> looks at it: \<open>null\<close>, on
  which reading \<open>.type\<close> raises a \<open>TypeError\<close>, or any other value, whose \<open>.type\<close> is a
  string or is not (\<open>undefined\<close>, a number, ...). The number stands for the rest of the
  content.
\<close>

datatype json = JNull | JValue "string option" nat

text \<open>An inbound frame is given by what \<open>JSON.parse\<close> makes of it.\<close>

datatype frame = Malformed | Parsed json

text \<open>The argument that \<open>emit\<close> passes to the handlers.\<close>

datatype payload = PNull | PErrorEvent | PJson json

datatype console_entry = ConsoleLog string | ConsoleWarn string | ConsoleError string

datatype jsvalue = JUndefined | JString string | JNumber nat

type_synonym handler = nat
type_synonym fields = "(string \<times> jsvalue) list"

record world =
  ws :: "nat option"
  reconnectTimer :: "nat option"
  messageHandlers :: "string \<Rightarrow> handler list option"
  sockets :: "nat \<Rightarrow> ready_state"
  socket_count :: nat
  pending_timers :: "nat list"
  next_timer :: nat
  sent :: "(nat \<times> string \<times> fields) list"
  console :: "console_entry list"
  invoked :: "(handler \<times> payload) list"

text \<open>
  A fresh page: no socket, no timer, no handler. Timer ids are positive
  (\<open>setTimeout\<close> never returns 0).
\<close>

definition initial :: world where
  "initial = \<lparr> ws = None, reconnectTimer = None, messageHandlers = (\<lambda>_. None),
     sockets = (\<lambda>_. CLOSED), socket_count = 0, pending_timers = [], next_timer = 1,
     sent = [], console = [], invoked = [] \<rparr>"

text \<open>\<open>if (this.reconnectTimer)\<close>: \<open>null\<close> and \<open>0\<close> are falsy.\<close>

definition truthy :: "nat option \<Rightarrow> bool" where
  "truthy t = (case t of None \<Rightarrow> False | Some n \<Rightarrow> n \<noteq> 0)"

text \<open>
  \<open>handlers.forEach(handler => handler(data))\<close>: the handlers are called in array order;
  there is no \<open>try\<close> around the call, so the first handler that throws ends the loop.
  The result is the list of handlers that were called and whether the loop threw.
\<close>

fun forEach :: "(handler \<Rightarrow> payload \<Rightarrow> bool) \<Rightarrow> payload \<Rightarrow> handler list \<Rightarrow> handler list \<times> bool" where
  "forEach thr d [] = ([], False)"
| "forEach thr d (h # hs) =
     (if thr h d then ([h], True)
      else (case forEach thr d hs of (called, threw) \<Rightarrow> (h # called, threw)))"

text \<open>
  \<open>emit(event, data)\<close>. The second component of the result tells whether an exception
  leaves \<open>emit\<close>. An array, also an empty one, is truthy.
\<close>

definition emit :: "(handler \<Rightarrow> payload \<Rightarrow> bool) \<Rightarrow> string \<Rightarrow> payload \<Rightarrow> world \<Rightarrow> world \<times> bool" where
  "emit thr event d w =
     (case messageHandlers w event of
        None \<Rightarrow> (w, False)
      | Some handlers \<Rightarrow>
          (case forEach thr d handlers of
             (called, threw) \<Rightarrow> (w\<lparr>invoked := invoked w @ map (\<lambda>h. (h, d)) called\<rparr>, threw)))"

definition clearReconnectTimer :: "world \<Rightarrow> world" where
  "clearReconnectTimer w =
     (case reconnectTimer w of
        None \<Rightarrow> w
      | Some t \<Rightarrow>
          if t \<noteq> 0
          then w\<lparr>pending_timers := removeAll t (pending_timers w), reconnectTimer := None\<rparr>
          else w)"

text \<open>
  \<open>scheduleReconnect()\<close>: arms a timeout whose callback calls \<open>connect()\<close>, unless
  \<open>reconnectTimer\<close> is truthy. The callback does not reset \<open>reconnectTimer\<close>.
\<close>

definition scheduleReconnect :: "world \<Rightarrow> world" where
  "scheduleReconnect w =
     (if \<not> truthy (reconnectTimer w)
      then w\<lparr>reconnectTimer := Some (next_timer w),
             pending_timers := pending_timers w @ [next_timer w],
             next_timer := next_timer w + 1\<rparr>
      else w)"

text \<open>
  \<open>connect()\<close>. The constructor \<open>new WebSocket(url)\<close> either returns a socket in state
  CONNECTING or throws; which of the two is the browser's choice, the argument
  \<open>constructed\<close>. There is no test of \<open>this.ws\<close> or of its \<open>readyState\<close> before the
  constructor is called.
\<close>

definition connect :: "bool \<Rightarrow> world \<Rightarrow> world" where
  "connect constructed w =
     (if constructed
      then w\<lparr>ws := Some (socket_count w),
             sockets := (sockets w)(socket_count w := CONNECTING),
             socket_count := socket_count w + 1\<rparr>
      else scheduleReconnect
             (w\<lparr>console := console w @ [ConsoleError ''Error creating WebSocket:'']\<rparr>))"

text \<open>The four callbacks that \<open>connect()\<close> installs on the socket.\<close>

definition onopen :: "(handler \<Rightarrow> payload \<Rightarrow> bool) \<Rightarrow> world \<Rightarrow> world \<times> bool" where
  "onopen thr w =
     emit thr ''connected'' PNull
       (clearReconnectTimer (w\<lparr>console := console w @ [ConsoleLog ''WebSocket connected'']\<rparr>))"

text \<open>
  \<open>onmessage\<close>: \<open>JSON.parse\<close> and \<open>emit\<close> are inside one \<open>try\<close>; the \<open>catch\<close> logs and
  returns. The handler map has string keys only, so a \<open>.type\<close> that is not a string
  finds no handlers.
\<close>

definition onmessage :: "(handler \<Rightarrow> payload \<Rightarrow> bool) \<Rightarrow> frame \<Rightarrow> world \<Rightarrow> world" where
  "onmessage thr fr w =
     (case fr of
        Malformed \<Rightarrow> w\<lparr>console := console w @ [ConsoleError ''Error parsing WebSocket message:'']\<rparr>
      | Parsed JNull \<Rightarrow> w\<lparr>console := console w @ [ConsoleError ''Error parsing WebSocket message:'']\<rparr>
      | Parsed (JValue None b) \<Rightarrow> w
      | Parsed (JValue (Some t) b) \<Rightarrow>
          (case emit thr t (PJson (JValue (Some t) b)) w of
             (w', threw) \<Rightarrow>
               if threw
               then w'\<lparr>console := console w' @ [ConsoleError ''Error parsing WebSocket message:'']\<rparr>
               else w'))"

definition onerror :: "(handler \<Rightarrow> payload \<Rightarrow> bool) \<Rightarrow> world \<Rightarrow> world \<times> bool" where
  "onerror thr w =
     emit thr ''error'' PErrorEvent (w\<lparr>console := console w @ [ConsoleError ''WebSocket error:'']\<rparr>)"

text \<open>
  \<open>onclose\<close>: \<open>emit('disconnected', null)\<close>, then \<open>scheduleReconnect()\<close>; an exception
  out of \<open>emit\<close> skips the second statement.
\<close>

definition onclose :: "(handler \<Rightarrow> payload \<Rightarrow> bool) \<Rightarrow> world \<Rightarrow> world \<times> bool" where
  "onclose thr w =
     (case emit thr ''disconnected'' PNull
             (w\<lparr>console := console w @ [ConsoleLog ''WebSocket disconnected'']\<rparr>) of
        (w', threw) \<Rightarrow> if threw then (w', True) else (scheduleReconnect w', False))"

text \<open>
  \<open>WebSocket.close()\<close> starts the closing handshake: a socket that is CONNECTING or OPEN
  becomes CLOSING, and the browser delivers the close event later.
\<close>

fun close_socket :: "ready_state \<Rightarrow> ready_state" where
  "close_socket CONNECTING = CLOSING"
| "close_socket OPEN = CLOSING"
| "close_socket CLOSING = CLOSING"
| "close_socket CLOSED = CLOSED"

text \<open>\<open>disconnect()\<close>. The callbacks of the socket are left in place.\<close>

definition disconnect :: "world \<Rightarrow> world" where
  "disconnect w =
     (let w1 = clearReconnectTimer w in
      case ws w1 of
        None \<Rightarrow> w1
      | Some i \<Rightarrow> w1\<lparr>sockets := (sockets w1)(i := close_socket (sockets w1 i)), ws := None\<rparr>)"

definition isConnected :: "world \<Rightarrow> bool" where
  "isConnected w = (case ws w of None \<Rightarrow> False | Some i \<Rightarrow> sockets w i = OPEN)"

text \<open>
  \<open>send(type, data)\<close>: the frame \<open>JSON.stringify({ type, ...data })\<close> is kept as the pair
  of the type and the fields.
\<close>

definition send :: "string \<Rightarrow> fields \<Rightarrow> world \<Rightarrow> world" where
  "send type d w =
     (case ws w of
        None \<Rightarrow> w\<lparr>console := console w @ [ConsoleWarn ''WebSocket is not connected'']\<rparr>
      | Some i \<Rightarrow>
          if sockets w i = OPEN
          then w\<lparr>sent := sent w @ [(i, type, d)]\<rparr>
          else w\<lparr>console := console w @ [ConsoleWarn ''WebSocket is not connected'']\<rparr>)"

definition sendAudioChunk :: "string \<Rightarrow> nat option \<Rightarrow> world \<Rightarrow> world" where
  "sendAudioChunk audioData timestamp w =
     send ''audio_chunk''
       [(''data'', JString audioData),
        (''timestamp'', (case timestamp of None \<Rightarrow> JUndefined | Some t \<Rightarrow> JNumber t))] w"

definition sendControl :: "string \<Rightarrow> world \<Rightarrow> world" where
  "sendControl action w = send ''control'' [(''action'', JString action)] w"

text \<open>
  \<open>on(event, handler)\<close>: creates the array when the event has none, then pushes. The
  lookup after \<open>set\<close> cannot miss.
\<close>

definition on :: "string \<Rightarrow> handler \<Rightarrow> world \<Rightarrow> world" where
  "on event h w =
     (let m = (if messageHandlers w event = None
               then (messageHandlers w)(event \<mapsto> [])
               else messageHandlers w)
      in case m event of
           None \<Rightarrow> w
         | Some handlers \<Rightarrow> w\<lparr>messageHandlers := m(event \<mapsto> handlers @ [h])\<rparr>)"

text \<open>\<open>Array.prototype.indexOf\<close>: the first index that holds the value, or -1.\<close>

fun indexOf :: "'a list \<Rightarrow> 'a \<Rightarrow> int" where
  "indexOf [] a = -1"
| "indexOf (x # xs) a =
     (if x = a then 0 else (let i = indexOf xs a in if i = -1 then -1 else i + 1))"

text \<open>\<open>xs.splice(start, deleteCount)\<close> for a start inside the array.\<close>

definition splice_array :: "'a list \<Rightarrow> nat \<Rightarrow> nat \<Rightarrow> 'a list" where
  "splice_array xs start deleteCount = take start xs @ drop (start + deleteCount) xs"

definition off :: "string \<Rightarrow> handler \<Rightarrow> world \<Rightarrow> world" where
  "off event h w =
     (case messageHandlers w event of
        None \<Rightarrow> w
      | Some handlers \<Rightarrow>
          (let index = indexOf handlers h in
           if index > -1
           then w\<lparr>messageHandlers := (messageHandlers w)(event \<mapsto> splice_array handlers (nat index) 1)\<rparr>
           else w))"

text \<open>The handlers that a dispatch of \<open>event\<close> would go through.\<close>

definition registered :: "world \<Rightarrow> string \<Rightarrow> handler list" where
  "registered w event = (case messageHandlers w event of None \<Rightarrow> [] | Some handlers \<Rightarrow> handlers)"

subsection \<open>The browser's side\<close>

text \<open>
  What happens to a world: the application calls a method of the service, or the
  browser delivers an event to a socket or runs a timeout. The browser delivers
  \<open>open\<close> to a socket that is CONNECTING, \<open>message\<close> to one that is OPEN, \<open>close\<close> to one
  that is not yet CLOSED, and runs only pending timeouts; \<open>exec\<close> is \<open>None\<close> for an
  action that cannot happen in the world. An exception that leaves a callback is
  reported by the browser and changes nothing else.
\<close>

datatype action =
    CallConnect bool
  | CallDisconnect
  | CallSend string fields
  | CallOn string handler
  | CallOff string handler
  | SocketOpen nat
  | SocketMessage nat frame
  | SocketError nat
  | SocketClose nat
  | TimerFire nat bool

fun exec :: "(handler \<Rightarrow> payload \<Rightarrow> bool) \<Rightarrow> action \<Rightarrow> world \<Rightarrow> world option" where
  "exec thr (CallConnect constructed) w = Some (connect constructed w)"
| "exec thr CallDisconnect w = Some (disconnect w)"
| "exec thr (CallSend type d) w = Some (send type d w)"
| "exec thr (CallOn event h) w = Some (on event h w)"
| "exec thr (CallOff event h) w = Some (off event h w)"
| "exec thr (SocketOpen i) w =
     (if i < socket_count w \<and> sockets w i = CONNECTING
      then Some (fst (onopen thr (w\<lparr>sockets := (sockets w)(i := OPEN)\<rparr>)))
      else None)"
| "exec thr (SocketMessage i fr) w =
     (if i < socket_count w \<and> sockets w i = OPEN
      then Some (onmessage thr fr w)
      else None)"
| "exec thr (SocketError i) w =
     (if i < socket_count w \<and> sockets w i \<noteq> CLOSED
      then Some (fst (onerror thr w))
      else None)"
| "exec thr (SocketClose i) w =
     (if i < socket_count w \<and> sockets w i \<noteq> CLOSED
      then Some (fst (onclose thr (w\<lparr>sockets := (sockets w)(i := CLOSED)\<rparr>)))
      else None)"
| "exec thr (TimerFire t constructed) w =
     (if t \<in> set (pending_timers w)
      then Some (connect constructed
                   (w\<lparr>pending_timers := removeAll t (pending_timers w),
                      console := console w @ [ConsoleLog ''Attempting to reconnect WebSocket...'']\<rparr>))
      else None)"

fun run :: "(handler \<Rightarrow> payload \<Rightarrow> bool) \<Rightarrow> action list \<Rightarrow> world \<Rightarrow> world option" where
  "run thr [] w = Some w"
| "run thr (a # as) w = (case exec thr a w of None \<Rightarrow> None | Some w' \<Rightarrow> run thr as w')"

text \<open>
  The console is written and never read. \<open>without_console\<close> forgets it, to compare
  worlds that differ in their log only.
\<close>

definition without_console :: "world \<Rightarrow> world" where
  "without_console w = w\<lparr>console := []\<rparr>"

section \<open>Audio capture: the hook \<open>useAudioRecorder\<close> (hooks/useAudioRecorder.ts)\<close>

text \<open>
  The hook keeps three state variables and six refs. A ref holds \<open>null\<close> or an object of
  the browser; the object is modelled by the part of its state that the hook reads:
  the \<open>state\<close> of the \<open>MediaRecorder\<close> and of the \<open>AudioContext\<close>, the tracks of the
  stream, the \<open>frequencyBinCount\<close> of the analyser.

  The functions of a React component are created anew in every render and close over
  the state variables of that render, which are constants. A closure that outlives its
  render (the \<open>ondataavailable\<close> callback of the recorder, a timeout) keeps reading the
  values of the render that created it. A \<open>snapshot\<close> holds those values.
\<close>

datatype recorder_state = Inactive | Recording | Paused
datatype context_state = Suspended | Running | Closed
datatype track_state = Live | Ended

text \<open>A JavaScript number: the result of \<open>0 / 0\<close>, or a real number.\<close>

datatype number = NaN | Num real

record snapshot =
  s_isConnected :: bool
  s_isMuted :: bool
  s_isRecording :: bool
  s_isPaused :: bool

text \<open>
  A \<open>MediaRecorder\<close> with the callback that \<open>startRecording\<close> installed on it; the
  callback reads \<open>isPaused\<close> and \<open>onAudioData\<close> of the render in \<open>mr_closure\<close>.
\<close>

record media_recorder =
  mr_state :: recorder_state
  mr_closure :: snapshot

text \<open>The calls that the hook makes on the objects behind the refs.\<close>

datatype media_call =
    MediaRecorderStop
  | TrackStop nat
  | AudioContextClose
  | CancelAnimationFrame nat

record recorder =
  isRecording :: bool
  isPaused :: bool
  audioLevel :: number
  error :: "string option"
  mediaRecorderRef :: "media_recorder option"
  audioContextRef :: "context_state option"
  analyserRef :: "nat option"
  sourceRef :: "unit option"
  streamRef :: "track_state list option"
  animationFrameRef :: "nat option"

definition idle :: recorder where
  "idle = \<lparr> isRecording = False, isPaused = False, audioLevel = Num 0, error = None,
     mediaRecorderRef = None, audioContextRef = None, analyserRef = None, sourceRef = None,
     streamRef = None, animationFrameRef = None \<rparr>"

text \<open>
  \<open>dataArray.reduce((acc, val) => acc + val, 0) / dataArray.length\<close> on a \<open>Uint8Array\<close>;
  on an empty array this is \<open>0 / 0\<close>.
\<close>

definition average :: "8 word list \<Rightarrow> number" where
  "average dataArray =
     (if length dataArray = 0 then NaN
      else Num (foldl (\<lambda>acc val. acc + real (unat val)) 0 dataArray / real (length dataArray)))"

text \<open>\<open>Math.min(100, (average / 255) * 100)\<close>; \<open>Math.min\<close> of \<open>NaN\<close> is \<open>NaN\<close>.\<close>

definition normalizedLevel :: "8 word list \<Rightarrow> number" where
  "normalizedLevel dataArray =
     (case average dataArray of NaN \<Rightarrow> NaN | Num a \<Rightarrow> Num (min 100 ((a / 255) * 100)))"

text \<open>
  \<open>calculateAudioLevel\<close>. The callback is memoised on \<open>[isRecording, isPaused]\<close> and reads
  the values of its render, \<open>c_isRecording\<close> and \<open>c_isPaused\<close>. \<open>dataArray\<close> is the array
  after \<open>getByteFrequencyData\<close> has filled it, \<open>frame\<close> the id that
  \<open>requestAnimationFrame\<close> returns. With no analyser the function returns before
  \<open>setAudioLevel\<close>.
\<close>

definition calculateAudioLevel :: "bool \<Rightarrow> bool \<Rightarrow> 8 word list \<Rightarrow> nat \<Rightarrow> recorder \<Rightarrow> recorder" where
  "calculateAudioLevel c_isRecording c_isPaused dataArray frame r =
     (case analyserRef r of
        None \<Rightarrow> r
      | Some bins \<Rightarrow>
          (let r1 = r\<lparr>audioLevel := normalizedLevel dataArray\<rparr> in
           if c_isRecording \<and> \<not> c_isPaused
           then r1\<lparr>animationFrameRef := Some frame\<rparr>
           else r1))"

text \<open>
  \<open>startRecording\<close>, for the closures of the render \<open>snap\<close>. \<open>getUserMedia\<close> resolves
  with a stream of some tracks or rejects with a message; the constructors of the audio
  context and of the recorder are taken to succeed. \<open>fftSize = 256\<close> gives 128 bins.
\<close>

datatype capture_outcome = Granted nat | Denied string

definition startRecording ::
  "snapshot \<Rightarrow> capture_outcome \<Rightarrow> 8 word list \<Rightarrow> nat \<Rightarrow> recorder \<Rightarrow> recorder" where
  "startRecording snap outcome dataArray frame r =
     (case outcome of
        Denied message \<Rightarrow> r\<lparr>error := Some message\<rparr>
      | Granted tracks \<Rightarrow>
          calculateAudioLevel (s_isRecording snap) (s_isPaused snap) dataArray frame
            (r\<lparr>error := None,
               streamRef := Some (replicate tracks Live),
               audioContextRef := Some Running,
               analyserRef := Some 128,
               sourceRef := Some (),
               mediaRecorderRef := Some \<lparr>mr_state = Recording, mr_closure = snap\<rparr>,
               isRecording := True\<rparr>))"

text \<open>
  \<open>stopRecording\<close>: the guarded calls on the objects, then every ref to \<open>null\<close> and the
  state to its initial values. The result is the new state of the hook and the calls
  made, in order.
\<close>

definition stopRecording :: "recorder \<Rightarrow> recorder \<times> media_call list" where
  "stopRecording r =
     (r\<lparr>mediaRecorderRef := None, audioContextRef := None, analyserRef := None,
         sourceRef := None, streamRef := None, animationFrameRef := None,
         isRecording := False, isPaused := False, audioLevel := Num 0\<rparr>,
      (case mediaRecorderRef r of
         None \<Rightarrow> []
       | Some m \<Rightarrow> if mr_state m \<noteq> Inactive then [MediaRecorderStop] else [])
      @ (case streamRef r of
           None \<Rightarrow> []
         | Some tracks \<Rightarrow> map TrackStop [0..<length tracks])
      @ (case audioContextRef r of
           None \<Rightarrow> []
         | Some c \<Rightarrow> if c \<noteq> Closed then [AudioContextClose] else [])
      @ (case animationFrameRef r of
           None \<Rightarrow> []
         | Some f \<Rightarrow> if f \<noteq> 0 then [CancelAnimationFrame f] else []))"

section \<open>The session controller: \<open>App\<close> (App.tsx)\<close>

text \<open>
  The state of the component as far as the audio path reads or writes it: the state
  variables \<open>isConnected\<close> (here \<open>isConnectedState\<close>, the name \<open>isConnected\<close> being the
  method of the service) and \<open>isMuted\<close>, the hook, the service singleton \<open>wsService\<close>,
  and the pending timeouts of \<open>handleToggleConnection\<close>, each with the snapshot of the
  render that created it. \<open>produced\<close> lists the chunks that a recorder has handed to
  \<open>onAudioData\<close>. Toasts, the message list and the status polling are left out.

  Each handler runs on the state of the current render; the outcome of the REST call it
  awaits is an argument (\<open>api_ok\<close>).
\<close>

datatype connection_status = StatusConnected | StatusDisconnected | StatusConnecting

record app =
  isConnectedState :: bool
  connectionStatus :: connection_status
  isMuted :: bool
  hook :: recorder
  wsService :: world
  startTimeouts :: "snapshot list"
  produced :: "string list"

definition mounted :: app where
  "mounted = \<lparr> isConnectedState = False, connectionStatus = StatusDisconnected,
     isMuted = False, hook = idle, wsService = initial, startTimeouts = [], produced = [] \<rparr>"

definition render :: "app \<Rightarrow> snapshot" where
  "render a = \<lparr> s_isConnected = isConnectedState a, s_isMuted = isMuted a,
     s_isRecording = isRecording (hook a), s_isPaused = isPaused (hook a) \<rparr>"


text \<open>\<open>handleAudioData\<close>, memoised on \<open>[isConnected, isMuted]\<close>, as created in render \<open>snap\<close>.\<close>

definition handleAudioData :: "snapshot \<Rightarrow> string \<Rightarrow> nat \<Rightarrow> app \<Rightarrow> app" where
  "handleAudioData snap audioData now a =
     (if s_isConnected snap \<and> \<not> s_isMuted snap
      then a\<lparr>wsService := sendAudioChunk audioData (Some now) (wsService a)\<rparr>
      else a)"

text \<open>
  The recorder delivers a blob of \<open>blob_size\<close> bytes: \<open>ondataavailable\<close> hands its base64
  text to \<open>onAudioData\<close> unless the blob is empty or the closure's \<open>isPaused\<close> is set.
  \<open>None\<close> when no recorder is recording.
\<close>

definition dataavailable :: "nat \<Rightarrow> string \<Rightarrow> nat \<Rightarrow> app \<Rightarrow> app option" where
  "dataavailable blob_size audioData now a =
     (case mediaRecorderRef (hook a) of
        None \<Rightarrow> None
      | Some m \<Rightarrow>
          if mr_state m = Recording
          then Some (if blob_size > 0 \<and> \<not> s_isPaused (mr_closure m)
                     then handleAudioData (mr_closure m) audioData now
                            (a\<lparr>produced := produced a @ [audioData]\<rparr>)
                     else a)
          else None)"

text \<open>
  \<open>handleToggleConnection\<close>. The timeout of the connect branch is created in the current
  render: its test \<open>!isMuted\<close> and the \<open>startRecording\<close> it calls read that render.
\<close>

definition handleToggleConnection :: "bool \<Rightarrow> bool \<Rightarrow> app \<Rightarrow> app" where
  "handleToggleConnection api_ok constructed a =
     (if isConnectedState a
      then (if api_ok
            then (let a1 = a\<lparr>wsService := disconnect (wsService a)\<rparr> in
                  if isRecording (hook a)
                  then a1\<lparr>hook := fst (stopRecording (hook a1))\<rparr>
                  else a1)
            else a)
      else (if api_ok
            then a\<lparr>connectionStatus := StatusConnecting,
                   wsService := connect constructed (wsService a),
                   startTimeouts := startTimeouts a @ [render a]\<rparr>
            else a\<lparr>connectionStatus := StatusDisconnected\<rparr>))"

text \<open>The oldest pending timeout of \<open>handleToggleConnection\<close> runs, one second later.\<close>

definition startTimeoutFires :: "capture_outcome \<Rightarrow> 8 word list \<Rightarrow> nat \<Rightarrow> app \<Rightarrow> app option" where
  "startTimeoutFires outcome dataArray frame a =
     (case startTimeouts a of
        [] \<Rightarrow> None
      | snap # rest \<Rightarrow>
          Some (if \<not> s_isMuted snap
                then a\<lparr>startTimeouts := rest,
                       hook := startRecording snap outcome dataArray frame (hook a)\<rparr>
                else a\<lparr>startTimeouts := rest\<rparr>))"

text \<open>\<open>handleToggleMute\<close>; a failed REST call leaves the state as it is.\<close>

definition handleToggleMute ::
  "bool \<Rightarrow> capture_outcome \<Rightarrow> 8 word list \<Rightarrow> nat \<Rightarrow> app \<Rightarrow> app" where
  "handleToggleMute api_ok outcome dataArray frame a =
     (if isMuted a
      then (if api_ok
            then (if isConnectedState a \<and> \<not> isRecording (hook a)
                  then a\<lparr>isMuted := False,
                         hook := startRecording (render a) outcome dataArray frame (hook a)\<rparr>
                  else a\<lparr>isMuted := False\<rparr>)
            else a)
      else (if api_ok
            then (if isRecording (hook a)
                  then a\<lparr>isMuted := True, hook := fst (stopRecording (hook a))\<rparr>
                  else a\<lparr>isMuted := True\<rparr>)
            else a))"

text \<open>
  The handlers that \<open>App\<close> registers for \<open>connected\<close> and \<open>disconnected\<close>; the second
  reads \<open>isRecording\<close> of the render that registered it.
\<close>

definition onConnected :: "app \<Rightarrow> app" where
  "onConnected a = a\<lparr>isConnectedState := True, connectionStatus := StatusConnected\<rparr>"

definition onDisconnected :: "snapshot \<Rightarrow> app \<Rightarrow> app" where
  "onDisconnected snap a =
     (let a1 = a\<lparr>isConnectedState := False, connectionStatus := StatusDisconnected\<rparr> in
      if s_isRecording snap then a1\<lparr>hook := fst (stopRecording (hook a1))\<rparr> else a1)"

text \<open>
  The browser opens socket \<open>i\<close> of the service: \<open>onopen\<close> runs and emits \<open>connected\<close>.
  The handlers that \<open>App\<close> has registered for that event act on the state of \<open>App\<close>
  and are applied here, after the service's own step, rather than kept as entries of
  \<open>messageHandlers\<close>. The mute button is disabled until \<open>isConnected\<close> is set this way.
\<close>

definition socketOpened :: "(handler \<Rightarrow> payload \<Rightarrow> bool) \<Rightarrow> nat \<Rightarrow> app \<Rightarrow> app option" where
  "socketOpened thr i a =
     (case exec thr (SocketOpen i) (wsService a) of
        None \<Rightarrow> None
      | Some w \<Rightarrow> Some (onConnected (a\<lparr>wsService := w\<rparr>)))"

section \<open>The segmentation buffer (specification, section 4.3)\<close>

text \<open>
  The client forwards every chunk as one \<open>audio_chunk\<close> message (\<open>handleAudioData\<close>,
  \<open>sendAudioChunk\<close>); the component that cuts the chunk stream into segments is not
  among the sources. Its state machine is taken from sections 3 and 4.3 of the
  specification.
\<close>

text \<open>
  Modelled from the spec: the \<open>AudioChunk\<close> of section 3, missing from the sources, with
  the activity flag that the chunk was classified with. The payload is named by the
  \<open>sequenceId\<close>. An absent \<open>speakerHint\<close> is the single implicit speaker.
\<close>

record chunk =
  sequenceId :: nat
  capturedAtMs :: int
  speakerHint :: "nat option"
  c_isActive :: bool

text \<open>
  Modelled from the spec: the \<open>Segment\<close> of section 3, missing from the sources, as it
  is handed to the transcription boundary.
\<close>

record segment =
  speakerId :: "nat option"
  startMs :: int
  endMs :: int
  chunks :: "chunk list"

text \<open>
  Modelled from the spec: a segment in state Open, missing from the sources, with the
  \<open>lastActiveMs\<close> that section 4.3 tracks.
\<close>

record open_segment =
  o_startMs :: int
  o_lastActiveMs :: int
  o_chunks :: "chunk list"

text \<open>
  Modelled from the spec: the parameters \<open>silenceTimeoutMs\<close> and \<open>maxSegmentMs\<close> of
  section 6, missing from the sources.
\<close>

record config =
  silenceTimeoutMs :: int
  maxSegmentMs :: int

text \<open>
  Modelled from the spec: the per-speaker state of the buffer, missing from the sources;
  \<open>None\<close> is Silent, \<open>Some\<close> is Open.
\<close>

type_synonym buffer = "nat option \<Rightarrow> open_segment option"

text \<open>
  Modelled from the spec: the transition to Closed (``segment is finalized, \<open>endMs\<close>
  set''), missing from the sources. \<open>endMs\<close> is the time of the last active chunk, as in
  the scenario of section 8, where chunks at 0, 300, 600, 900 followed by silence give
  the segment \<open>[0, 900]\<close>.
\<close>

definition finalize :: "nat option \<Rightarrow> open_segment \<Rightarrow> segment" where
  "finalize s seg = \<lparr> speakerId = s, startMs = o_startMs seg, endMs = o_lastActiveMs seg,
     chunks = o_chunks seg \<rparr>"

text \<open>
  Modelled from the spec: the state machine of one speaker, missing from the sources.
  Silent: an active chunk opens a segment that starts at the chunk's time; an inactive
  chunk is not kept. Open: every chunk is appended whatever its flag, an active one
  moves \<open>lastActiveMs\<close>, and the segment closes when \<open>now - lastActiveMs\<close> exceeds the
  silence timeout or \<open>now - startMs\<close> exceeds the maximal duration, \<open>now\<close> being the time
  of the appended chunk. The result is the new state and the segments dispatched.
\<close>

definition step_speaker ::
  "config \<Rightarrow> nat option \<Rightarrow> open_segment option \<Rightarrow> chunk \<Rightarrow> open_segment option \<times> segment list" where
  "step_speaker cfg s st c =
     (case st of
        None \<Rightarrow>
          if c_isActive c
          then (Some \<lparr> o_startMs = capturedAtMs c, o_lastActiveMs = capturedAtMs c,
                        o_chunks = [c] \<rparr>, [])
          else (None, [])
      | Some seg \<Rightarrow>
          (let now = capturedAtMs c;
               seg1 = seg\<lparr> o_chunks := o_chunks seg @ [c],
                           o_lastActiveMs := (if c_isActive c then now else o_lastActiveMs seg) \<rparr>
           in if now - o_lastActiveMs seg1 > silenceTimeoutMs cfg
                 \<or> now - o_startMs seg1 > maxSegmentMs cfg
              then (None, [finalize s seg1])
              else (Some seg1, [])))"

text \<open>
  Modelled from the spec: segmentation is per speaker, missing from the sources; a chunk
  touches only the state of its own speaker.
\<close>

definition feed :: "config \<Rightarrow> buffer \<Rightarrow> chunk \<Rightarrow> buffer \<times> segment list" where
  "feed cfg buf c =
     (case step_speaker cfg (speakerHint c) (buf (speakerHint c)) c of
        (st, out) \<Rightarrow> (buf(speakerHint c := st), out))"

text \<open>Modelled from the spec: the buffer run over a sequence of chunks, missing from the sources.\<close>

fun feed_all :: "config \<Rightarrow> buffer \<Rightarrow> chunk list \<Rightarrow> buffer \<times> segment list" where
  "feed_all cfg buf [] = (buf, [])"
| "feed_all cfg buf (c # cs) =
     (case feed cfg buf c of
        (buf1, out1) \<Rightarrow>
          (case feed_all cfg buf1 cs of (buf2, out2) \<Rightarrow> (buf2, out1 @ out2)))"

text \<open>
  Modelled from the spec: when the session ends with a segment Open, ``the partial
  segment is force-Closed and dispatched rather than discarded''; missing from the
  sources.
\<close>

definition force_close :: "buffer \<Rightarrow> nat option \<Rightarrow> segment list" where
  "force_close buf s = (case buf s of None \<Rightarrow> [] | Some seg \<Rightarrow> [finalize s seg])"

text \<open>
  Modelled from the spec: the segment stream of one speaker, missing from the sources:
  the segments dispatched for the speaker while the chunks are fed, then the one that
  is force-closed at the end.
\<close>

definition segments_from :: "config \<Rightarrow> buffer \<Rightarrow> chunk list \<Rightarrow> nat option \<Rightarrow> segment list" where
  "segments_from cfg buf cs s =
     (case feed_all cfg buf cs of
        (buf', out) \<Rightarrow> filter (\<lambda>g. speakerId g = s) out @ force_close buf' s)"

text \<open>
  Modelled from the spec: the segment stream of one speaker for a session that starts
  with every speaker Silent, the initial state of section 4.3; missing from the sources.
\<close>

definition segments_for :: "config \<Rightarrow> chunk list \<Rightarrow> nat option \<Rightarrow> segment list" where
  "segments_for cfg cs s = segments_from cfg (\<lambda>_. None) cs s"

text \<open>
  What it means for a list of chunk runs to cut a chunk stream into segments: the
  stream is a stretch of inactive chunks, then the first run, then a stretch of
  inactive chunks, then the second run, and so on, and ends with inactive chunks; no
  run is empty. Since a run is found after the longest inactive stretch, it begins with
  an active chunk.
\<close>

fun covers :: "chunk list \<Rightarrow> chunk list list \<Rightarrow> bool" where
  "covers xs [] = list_all (\<lambda>c. \<not> c_isActive c) xs"
| "covers xs (g # gs) =
     (let ys = dropWhile (\<lambda>c. \<not> c_isActive c) xs
      in g \<noteq> [] \<and> take (length g) ys = g \<and> covers (drop (length g) ys) gs)"

text \<open>
  A segment is well formed when it has a first chunk, that chunk is active and gives
  \<open>startMs\<close>, and \<open>endMs\<close> is the time of its last active chunk.
\<close>

definition well_formed :: "segment \<Rightarrow> bool" where
  "well_formed g =
     (case chunks g of
        [] \<Rightarrow> False
      | c # cs \<Rightarrow> c_isActive c \<and> startMs g = capturedAtMs c
          \<and> endMs g = capturedAtMs (last (filter c_isActive (chunks g))))"

text \<open>A buffer whose open segments would all be well formed if they were closed now.\<close>

definition buffer_ok :: "buffer \<Rightarrow> bool" where
  "buffer_ok buf = (\<forall>s. case buf s of None \<Rightarrow> True | Some seg \<Rightarrow> well_formed (finalize s seg))"

section \<open>Handler behaviours used in the examples\<close>

text \<open>Handlers that all return, and handlers of which exactly one throws.\<close>

definition never_throws :: "handler \<Rightarrow> payload \<Rightarrow> bool" where
  "never_throws h d = False"

definition throws_only :: "handler \<Rightarrow> handler \<Rightarrow> payload \<Rightarrow> bool" where
  "throws_only g h d = (h = g)"

text \<open>
  The world after \<open>connect()\<close> on a fresh page and the \<open>open\<close> event of its socket
  (lemma \<open>run_open_world\<close> below).
\<close>

definition open_world :: world where
  "open_world = initial\<lparr>ws := Some 0, sockets := (sockets initial)(0 := OPEN), socket_count := 1,
     console := [ConsoleLog ''WebSocket connected'']\<rparr>"

text \<open>A frame of 128 zero bytes.\<close>

definition silence :: "8 word list" where
  "silence = replicate 128 0"

text \<open>
  \<open>App\<close> after the click on Connect and the opening of the socket, before the timeout
  that starts the recorder has run.
\<close>

definition connected_unmuted :: app where
  "connected_unmuted =
     \<lparr> isConnectedState = True, connectionStatus = StatusConnected, isMuted = False,
       hook = idle, wsService = open_world,
       startTimeouts = [\<lparr> s_isConnected = False, s_isMuted = False,
         s_isRecording = False, s_isPaused = False \<rparr>],
       produced = [] \<rparr>"

text \<open>A state in which the recorder is running although \<open>isMuted\<close> is set.\<close>

definition capturing_while_muted :: app where
  "capturing_while_muted =
     \<lparr> isConnectedState = True, connectionStatus = StatusConnected, isMuted = True,
       hook = \<lparr> isRecording = True, isPaused = False, audioLevel = Num 0, error = None,
         mediaRecorderRef = Some \<lparr> mr_state = Recording,
           mr_closure = \<lparr> s_isConnected = False, s_isMuted = False,
             s_isRecording = False, s_isPaused = False \<rparr> \<rparr>,
         audioContextRef = Some Running, analyserRef = Some 128, sourceRef = Some (),
         streamRef = Some [Live], animationFrameRef = None \<rparr>,
       wsService = open_world, startTimeouts = [], produced = [] \<rparr>"

text \<open>
  Modelled from the spec: the defaults of section 6 (\<open>silenceTimeoutMs\<close> 500,
  \<open>maxSegmentMs\<close> 8000), missing from the sources.
\<close>

definition default_config :: config where
  "default_config = \<lparr> silenceTimeoutMs = 500, maxSegmentMs = 8000 \<rparr>"

text \<open>A chunk of speaker 1, for the examples.\<close>

definition chunk_at :: "nat \<Rightarrow> int \<Rightarrow> bool \<Rightarrow> chunk" where
  "chunk_at n t v = \<lparr> sequenceId = n, capturedAtMs = t, speakerHint = Some 1, c_isActive = v \<rparr>"

section \<open>Properties of the message router\<close>

lemma indexOf_lower: "-1 \<le> indexOf xs a"
  by (induction xs) (auto simp: Let_def)

lemma indexOf_absent: "a \<notin> set xs \<Longrightarrow> indexOf xs a = -1"
  by (induction xs) (auto simp: Let_def)

lemma indexOf_present: "a \<in> set xs \<Longrightarrow> 0 \<le> indexOf xs a"
proof (induction xs)
  case Nil
  then show ?case by simp
next
  case (Cons x xs)
  then show ?case
    using indexOf_lower [of xs a] by (auto simp: Let_def)
qed

lemma indexOf_iff: "indexOf xs a > -1 \<longleftrightarrow> a \<in> set xs"
  using indexOf_absent [of a xs] indexOf_present [of a xs] by fastforce

lemma splice_array_indexOf: "a \<in> set xs \<Longrightarrow> splice_array xs (nat (indexOf xs a)) (Suc 0) = remove1 a xs"
proof (induction xs)
  case Nil
  then show ?case by simp
next
  case (Cons x xs)
  show ?case
  proof (cases "x = a")
    case True
    then show ?thesis by (simp add: splice_array_def)
  next
    case False
    with Cons.prems have mem: "a \<in> set xs" by simp
    then have nonneg: "0 \<le> indexOf xs a" by (rule indexOf_present)
    then have "nat (indexOf xs a + 1) = Suc (nat (indexOf xs a))" by simp
    with False nonneg Cons.IH [OF mem] show ?thesis
      by (simp add: splice_array_def Let_def)
  qed
qed

lemma invoked_initial: "invoked initial = []"
  by (simp add: initial_def)

lemma registered_initial: "registered initial e = []"
  by (simp add: registered_def initial_def)

lemma registered_on:
  "registered (on e h w) e' = (if e' = e then registered w e @ [h] else registered w e')"
  by (simp add: registered_def on_def Let_def split: option.splits)

lemma registered_off:
  "registered (off e h w) e' = (if e' = e then remove1 h (registered w e) else registered w e')"
proof (cases "messageHandlers w e")
  case None
  then show ?thesis by (simp add: registered_def off_def)
next
  case (Some hs)
  show ?thesis
  proof (cases "h \<in> set hs")
    case True
    then have "indexOf hs h > -1" by (simp add: indexOf_iff)
    with Some True show ?thesis
      by (simp add: registered_def off_def Let_def splice_array_indexOf)
  next
    case False
    then have "indexOf hs h = -1" by (rule indexOf_absent)
    with Some False show ?thesis
      by (simp add: registered_def off_def Let_def remove1_idem)
  qed
qed

lemma forEach_called:
  "fst (forEach thr d hs) =
     takeWhile (\<lambda>h. \<not> thr h d) hs @ take 1 (dropWhile (\<lambda>h. \<not> thr h d) hs)"
  by (induction hs) (auto split: prod.splits)

lemma forEach_threw: "snd (forEach thr d hs) = (\<exists>h \<in> set hs. thr h d)"
  by (induction hs) (auto split: prod.splits)

lemma forEach_subset: "set (fst (forEach thr d hs)) \<subseteq> set hs"
  by (induction hs) (auto split: prod.splits)

lemma forEach_no_throw: "\<forall>h \<in> set hs. \<not> thr h d \<Longrightarrow> forEach thr d hs = (hs, False)"
  by (induction hs) auto

lemma emit_invoked:
  "invoked (fst (emit thr e d w)) = invoked w @ map (\<lambda>h. (h, d)) (fst (forEach thr d (registered w e)))"
  by (simp add: emit_def registered_def split: option.splits prod.splits)

lemma emit_threw: "snd (emit thr e d w) = snd (forEach thr d (registered w e))"
  by (simp add: emit_def registered_def split: option.splits prod.splits)

lemma invoked_on [simp]: "invoked (on e h w) = invoked w"
  by (simp add: on_def Let_def split: option.splits)

lemma invoked_off [simp]: "invoked (off e h w) = invoked w"
  by (simp add: off_def Let_def split: option.splits)

text \<open>
  Claim C10. Subscribing a handler \<open>h\<close> that is not registered for \<open>e\<close> and then
  unsubscribing it restores the handlers of every event, so a dispatch of \<open>e\<close> afterwards
  calls exactly the handlers it would have called before, and \<open>h\<close> is not among them.
  In any state \<open>v\<close>, \<open>off\<close> removes the first occurrence of the handler and no other:
  the number of occurrences of \<open>h\<close> goes down by one (and stays 0 when there is none).
\<close>

theorem on_off_roundtrip:
  assumes "h \<notin> set (registered w e)"
  shows "registered (off e h (on e h w)) e' = registered w e'
    \<and> invoked (fst (emit thr e d (off e h (on e h w)))) = invoked (fst (emit thr e d w))
    \<and> snd (emit thr e d (off e h (on e h w))) = snd (emit thr e d w)
    \<and> h \<notin> set (fst (forEach thr d (registered (off e h (on e h w)) e)))
    \<and> registered (off e h v) e = remove1 h (registered v e)
    \<and> count_list (registered (off e h v) e) h = count_list (registered v e) h - 1"
proof -
  have same: "registered (off e h (on e h w)) e' = registered w e'" for e'
    using assms by (simp add: registered_off registered_on remove1_append)
  have cnt: "count_list (remove1 h xs) h = count_list xs h - 1" for xs
    by (induction xs) auto
  have absent: "h \<notin> set (fst (forEach thr d (registered w e)))"
    using assms forEach_subset [of thr d "registered w e"] by blast
  have inv: "invoked (fst (emit thr e d (off e h (on e h w)))) = invoked (fst (emit thr e d w))"
    by (simp add: emit_invoked same)
  have threw: "snd (emit thr e d (off e h (on e h w))) = snd (emit thr e d w)"
    by (simp add: emit_threw same)
  have one: "registered (off e h v) e = remove1 h (registered v e)"
    by (simp add: registered_off)
  show ?thesis
    using absent by (simp add: same inv threw one cnt)
qed

theorem on_off_roundtrip_witness:
  "registered (off ''status'' 3 (on ''status'' 3 (on ''status'' 2 initial))) ''status'' = [2]
   \<and> invoked (fst (emit never_throws ''status'' PNull
        (off ''status'' 3 (on ''status'' 3 (on ''status'' 2 initial))))) = [(2, PNull)]
   \<and> registered (off ''status'' 3 (on ''status'' 3 (on ''status'' 2 (on ''status'' 3 initial)))) ''status'' = [2, 3]"
proof -
  have reg: "registered (on ''status'' 2 initial) ''status'' = [2]"
    by (simp add: registered_on registered_initial)
  have absent: "3 \<notin> set (registered (on ''status'' 2 initial) ''status'')"
    by (simp add: reg)
  have inv: "invoked (fst (emit never_throws ''status'' PNull (on ''status'' 2 initial))) = [(2, PNull)]"
    by (simp add: emit_invoked reg never_throws_def invoked_initial)
  from on_off_roundtrip [OF absent, of "''status''" never_throws PNull "on ''status'' 3 (on ''status'' 2 (on ''status'' 3 initial))"]
  show ?thesis
    by (simp add: reg inv registered_on registered_initial)
qed

lemma registered_Some: "messageHandlers w e = Some hs \<Longrightarrow> registered w e = hs"
  by (simp add: registered_def)

lemma handlers_two:
  "messageHandlers (on ''status'' 3 (on ''status'' 2 initial)) ''status'' = Some [2, 3]"
  by (simp add: on_def initial_def Let_def)

text \<open>
  Claim C2, as the code has it. \<open>emit\<close> calls the handlers registered for the event in
  registration order, each once, up to and including the first one that throws; the
  exception then leaves \<open>emit\<close> and the handlers after it are not called. When no handler
  throws, every registered handler is called exactly once, in registration order.
\<close>

theorem emit_stops_at_first_throw:
  assumes "messageHandlers w e = Some hs"
  shows "invoked (fst (emit thr e d w)) =
           invoked w @ map (\<lambda>h. (h, d))
             (takeWhile (\<lambda>h. \<not> thr h d) hs @ take 1 (dropWhile (\<lambda>h. \<not> thr h d) hs))
    \<and> snd (emit thr e d w) = (\<exists>h \<in> set hs. thr h d)
    \<and> ((\<forall>h \<in> set hs. \<not> thr h d) \<longrightarrow>
          invoked (fst (emit thr e d w)) = invoked w @ map (\<lambda>h. (h, d)) hs)"
proof -
  have reg: "registered w e = hs"
    using assms by (rule registered_Some)
  have called: "invoked (fst (emit thr e d w)) =
      invoked w @ map (\<lambda>h. (h, d))
        (takeWhile (\<lambda>h. \<not> thr h d) hs @ take 1 (dropWhile (\<lambda>h. \<not> thr h d) hs))"
    by (simp only: emit_invoked reg forEach_called)
  have threw: "snd (emit thr e d w) = (\<exists>h \<in> set hs. thr h d)"
    by (simp only: emit_threw reg forEach_threw)
  have quiet: "invoked (fst (emit thr e d w)) = invoked w @ map (\<lambda>h. (h, d)) hs"
    if "\<forall>h \<in> set hs. \<not> thr h d"
    using that by (simp add: emit_invoked reg forEach_no_throw)
  from called threw quiet show ?thesis by blast
qed

text \<open>Two handlers that return: both are called, in the order of their registration.\<close>

theorem emit_stops_at_first_throw_witness:
  "invoked (fst (emit never_throws ''status'' PNull (on ''status'' 3 (on ''status'' 2 initial))))
     = [(2, PNull), (3, PNull)]
   \<and> \<not> snd (emit never_throws ''status'' PNull (on ''status'' 3 (on ''status'' 2 initial)))"
  using emit_stops_at_first_throw [OF handlers_two, of never_throws PNull]
  by (simp add: never_throws_def invoked_initial)

text \<open>
  Claim C2 as stated fails: with handlers 2 and 3 registered for \<open>status\<close> in this order
  and handler 2 throwing, handler 3 is never called and the exception leaves \<open>emit\<close>.
\<close>

theorem emit_skips_handlers_after_throw:
  "registered (on ''status'' 3 (on ''status'' 2 initial)) ''status'' = [2, 3]
   \<and> invoked (fst (emit (throws_only 2) ''status'' PNull (on ''status'' 3 (on ''status'' 2 initial))))
       = [(2, PNull)]
   \<and> snd (emit (throws_only 2) ''status'' PNull (on ''status'' 3 (on ''status'' 2 initial)))"
  by (simp add: emit_invoked emit_threw registered_on registered_initial throws_only_def
      invoked_initial)

section \<open>Properties of the session transport\<close>

text \<open>
  Claim C3, as the code has it. \<open>connect()\<close> has no guard: whenever the constructor
  returns, the call creates a new socket in state CONNECTING and makes it the socket of
  the service, whatever the state of the transport was. The socket referenced before is
  neither closed nor changed, and the reconnect timer, the pending timeouts, the
  registered handlers and everything sent or delivered so far stay as they are.
\<close>

theorem connect_always_opens_new_socket:
  "ws (connect True w) = Some (socket_count w)
   \<and> socket_count (connect True w) = socket_count w + 1
   \<and> sockets (connect True w) = (sockets w)(socket_count w := CONNECTING)
   \<and> reconnectTimer (connect True w) = reconnectTimer w
   \<and> pending_timers (connect True w) = pending_timers w
   \<and> messageHandlers (connect True w) = messageHandlers w
   \<and> sent (connect True w) = sent w
   \<and> invoked (connect True w) = invoked w
   \<and> console (connect True w) = console w"
  by (simp add: connect_def)

text \<open>
  Claim C3 as stated fails: a second \<open>connect()\<close> while the first socket is still
  CONNECTING constructs a second socket and replaces the reference; the first socket
  stays CONNECTING with its callbacks installed.
\<close>

theorem connect_not_idempotent:
  "ws (connect True initial) = Some 0
   \<and> sockets (connect True initial) 0 = CONNECTING
   \<and> ws (connect True (connect True initial)) = Some 1
   \<and> socket_count (connect True (connect True initial)) = 2
   \<and> sockets (connect True (connect True initial)) 0 = CONNECTING
   \<and> connect True (connect True initial) \<noteq> connect True initial"
proof -
  have "ws (connect True (connect True initial)) \<noteq> ws (connect True initial)"
    by (simp add: connect_def initial_def)
  then have "connect True (connect True initial) \<noteq> connect True initial"
    by auto
  then show ?thesis
    by (simp add: connect_def initial_def)
qed

lemma emit_console:
  "emit thr e d (w\<lparr>console := c\<rparr>) = (case emit thr e d w of (w', t) \<Rightarrow> (w'\<lparr>console := c\<rparr>, t))"
  by (simp add: emit_def split: option.splits prod.splits)

lemma emit_console_same: "console (fst (emit thr e d w)) = console w"
  by (simp add: emit_def split: option.splits prod.splits)

lemma exec_without_console:
  "map_option without_console (exec thr a (w\<lparr>console := c\<rparr>)) = map_option without_console (exec thr a w)"
proof (cases a)
  case (CallConnect ok)
  then show ?thesis
    by (simp add: without_console_def connect_def scheduleReconnect_def)
next
  case CallDisconnect
  then show ?thesis
    by (simp add: without_console_def disconnect_def clearReconnectTimer_def Let_def
        split: option.splits)
next
  case (CallSend ty d)
  then show ?thesis
    by (simp add: without_console_def send_def split: option.splits)
next
  case (CallOn e h)
  then show ?thesis
    by (simp add: without_console_def on_def Let_def split: option.splits)
next
  case (CallOff e h)
  then show ?thesis
    by (simp add: without_console_def off_def Let_def split: option.splits)
next
  case (SocketOpen i)
  then show ?thesis
    by (auto simp: without_console_def onopen_def clearReconnectTimer_def emit_def
        split: option.splits prod.splits)
next
  case (SocketMessage i fr)
  then show ?thesis
    by (auto simp: without_console_def onmessage_def emit_def
        split: option.splits prod.splits frame.splits json.splits)
next
  case (SocketError i)
  then show ?thesis
    by (auto simp: without_console_def onerror_def emit_def split: option.splits prod.splits)
next
  case (SocketClose i)
  then show ?thesis
    by (auto simp: without_console_def onclose_def scheduleReconnect_def emit_def
        split: option.splits prod.splits)
next
  case (TimerFire t ok)
  then show ?thesis
    by (simp add: without_console_def connect_def scheduleReconnect_def)
qed


lemma without_console_eq:
  "without_console w2 = without_console w1 \<Longrightarrow> w2 = w1\<lparr>console := console w2\<rparr>"
  by (cases w1, cases w2) (simp add: without_console_def)

lemma run_without_console:
  "map_option without_console (run thr as (w\<lparr>console := c\<rparr>)) = map_option without_console (run thr as w)"
proof (induction as arbitrary: w c)
  case Nil
  show ?case by (simp add: without_console_def)
next
  case (Cons a as)
  show ?case
  proof (cases "exec thr a w")
    case None
    with exec_without_console [where thr = thr and a = a and w = w and c = c] have "exec thr a (w\<lparr>console := c\<rparr>) = None"
      by simp
    with None show ?thesis by simp
  next
    case (Some w1)
    with exec_without_console [where thr = thr and a = a and w = w and c = c] obtain w2 where
      step: "exec thr a (w\<lparr>console := c\<rparr>) = Some w2"
      and same: "without_console w2 = without_console w1"
      by (cases "exec thr a (w\<lparr>console := c\<rparr>)") auto
    from same have "w2 = w1\<lparr>console := console w2\<rparr>"
      by (rule without_console_eq)
    then have "map_option without_console (run thr as w2) = map_option without_console (run thr as w1)"
      using Cons.IH [where w = w1 and c = "console w2"] by simp
    with Some step show ?thesis by simp
  qed
qed

lemma sent_without_console: "sent (without_console w) = sent w"
  by (simp add: without_console_def)

lemma run_sent_console:
  "map_option sent (run thr as (w\<lparr>console := c\<rparr>)) = map_option sent (run thr as w)"
proof -
  have "map_option sent (map_option without_console (run thr as (w\<lparr>console := c\<rparr>)))
      = map_option sent (map_option without_console (run thr as w))"
    by (simp only: run_without_console)
  then show ?thesis
    by (simp add: option.map_comp comp_def sent_without_console)
qed

text \<open>
  Claim C4, as the code has it. When the transport is not open, \<open>send\<close> returns at once
  with the world unchanged except for one console warning: nothing is transmitted and
  no handler is called, so no error event reaches the caller. Nothing is kept for later
  either: whatever happens afterwards, the frames transmitted are those that would have
  been transmitted had \<open>send\<close> not been called.
\<close>

theorem send_not_open_drops:
  assumes "\<not> isConnected w"
  shows "send type d w = w\<lparr>console := console w @ [ConsoleWarn ''WebSocket is not connected'']\<rparr>
    \<and> sent (send type d w) = sent w
    \<and> invoked (send type d w) = invoked w
    \<and> map_option sent (run thr as (send type d w)) = map_option sent (run thr as w)"
proof -
  have dropped: "send type d w = w\<lparr>console := console w @ [ConsoleWarn ''WebSocket is not connected'']\<rparr>"
    using assms by (auto simp: send_def isConnected_def split: option.splits)
  have later: "map_option sent (run thr as (send type d w)) = map_option sent (run thr as w)"
    unfolding dropped by (rule run_sent_console)
  from dropped later show ?thesis by simp
qed

text \<open>
  An audio chunk sent while the socket is still CONNECTING is not transmitted when the
  socket opens; the control message sent after the opening is.
\<close>

theorem send_not_open_drops_witness:
  "\<not> isConnected (connect True initial)
   \<and> sent (sendAudioChunk ''UklGRg=='' (Some 1700000000000) (connect True initial)) = []
   \<and> invoked (sendAudioChunk ''UklGRg=='' (Some 1700000000000) (connect True initial)) = []
   \<and> console (sendAudioChunk ''UklGRg=='' (Some 1700000000000) (connect True initial))
       = [ConsoleWarn ''WebSocket is not connected'']
   \<and> map_option sent (run never_throws [SocketOpen 0, CallSend ''control'' [(''action'', JString ''mute'')]]
        (sendAudioChunk ''UklGRg=='' (Some 1700000000000) (connect True initial)))
       = Some [(0, ''control'', [(''action'', JString ''mute'')])]"
proof -
  have closed: "\<not> isConnected (connect True initial)"
    by (simp add: isConnected_def connect_def initial_def)
  have later: "map_option sent (run never_throws
      [SocketOpen 0, CallSend ''control'' [(''action'', JString ''mute'')]] (connect True initial))
      = Some [(0, ''control'', [(''action'', JString ''mute'')])]"
    by (simp add: connect_def onopen_def emit_def clearReconnectTimer_def send_def initial_def)
  have fields: "console (connect True initial) = []" "sent (connect True initial) = []"
    "invoked (connect True initial) = []"
    by (simp_all add: connect_def initial_def)
  note inst = send_not_open_drops [OF closed, where type = "''audio_chunk''"
      and d = "[(''data'', JString ''UklGRg==''), (''timestamp'', JNumber 1700000000000)]"
      and thr = never_throws
      and as = "[SocketOpen 0, CallSend ''control'' [(''action'', JString ''mute'')]]"]
  note warned = inst [THEN conjunct1]
  note nothing_sent = inst [THEN conjunct2, THEN conjunct1]
  note nothing_called = inst [THEN conjunct2, THEN conjunct2, THEN conjunct1]
  note nothing_later = inst [THEN conjunct2, THEN conjunct2, THEN conjunct2]
  have logged: "console (send ''audio_chunk''
      [(''data'', JString ''UklGRg==''), (''timestamp'', JNumber 1700000000000)]
      (connect True initial)) = [ConsoleWarn ''WebSocket is not connected'']"
    by (simp add: warned fields)
  show ?thesis
    unfolding sendAudioChunk_def option.case nothing_sent nothing_called nothing_later
      logged later fields
    using closed by simp
qed

text \<open>
  Claim C4 as stated fails: with a handler registered for \<open>error\<close> and the transport
  disconnected, \<open>send\<close> calls no handler; the only trace of the dropped message is the
  console warning.
\<close>

theorem send_not_open_no_error_event:
  "\<not> isConnected (on ''error'' 2 initial)
   \<and> registered (on ''error'' 2 initial) ''error'' = [2]
   \<and> invoked (send ''audio_chunk'' [(''data'', JString ''UklGRg=='')] (on ''error'' 2 initial)) = []
   \<and> console (send ''audio_chunk'' [(''data'', JString ''UklGRg=='')] (on ''error'' 2 initial))
       = [ConsoleWarn ''WebSocket is not connected'']"
  by (simp add: isConnected_def send_def on_def registered_def initial_def Let_def)

lemma run_open_world: "run thr [CallConnect True, SocketOpen 0] initial = Some open_world"
  by (simp add: connect_def onopen_def emit_def clearReconnectTimer_def initial_def
      open_world_def)



text \<open>
  What \<open>disconnect()\<close> achieves at once: the service holds no socket, its timer field is
  falsy, and a timer it held is no longer pending.
\<close>

lemma disconnect_immediate:
  "ws (disconnect w) = None
   \<and> \<not> truthy (reconnectTimer (disconnect w))
   \<and> (\<forall>t. reconnectTimer w = Some t \<longrightarrow> t \<noteq> 0 \<longrightarrow> t \<notin> set (pending_timers (disconnect w)))"
  by (auto simp: disconnect_def clearReconnectTimer_def truthy_def Let_def split: option.splits)

text \<open>
  Claim C1 does not hold of the code. \<open>disconnect()\<close> clears the timer that is pending
  at that moment and closes the socket, but leaves the socket's \<open>onclose\<close> callback in
  place. When the browser then delivers the close event of that socket, \<open>onclose\<close> calls
  \<open>scheduleReconnect()\<close>, which arms a new timer, and the timer's callback calls
  \<open>connect()\<close>: a second socket is constructed although the caller never called
  \<open>connect()\<close> again. The first three states below are those after \<open>disconnect()\<close>,
  after the close event and after the timeout, for a \<open>disconnect()\<close> issued while the
  first connection attempt is in flight; the last one is the state after the timeout
  when \<open>disconnect()\<close> is called on the open socket.
\<close>

theorem disconnect_does_not_stop_reconnect:
  "run never_throws [CallConnect True, CallDisconnect] initial
     = Some (initial\<lparr>ws := None, sockets := (sockets initial)(0 := CLOSING), socket_count := 1\<rparr>)
   \<and> run never_throws [CallConnect True, CallDisconnect, SocketClose 0] initial
     = Some (initial\<lparr>ws := None, reconnectTimer := Some 1,
          sockets := (sockets initial)(0 := CLOSED), socket_count := 1,
          pending_timers := [1], next_timer := 2,
          console := [ConsoleLog ''WebSocket disconnected'']\<rparr>)
   \<and> run never_throws [CallConnect True, CallDisconnect, SocketClose 0, TimerFire 1 True] initial
     = Some (initial\<lparr>ws := Some 1, reconnectTimer := Some 1,
          sockets := (sockets initial)(0 := CLOSED, 1 := CONNECTING), socket_count := 2,
          pending_timers := [], next_timer := 2,
          console := [ConsoleLog ''WebSocket disconnected'',
            ConsoleLog ''Attempting to reconnect WebSocket...'']\<rparr>)
   \<and> run never_throws
         [CallConnect True, SocketOpen 0, CallDisconnect, SocketClose 0, TimerFire 1 True] initial
     = Some (initial\<lparr>ws := Some 1, reconnectTimer := Some 1,
          sockets := (sockets initial)(0 := CLOSED, 1 := CONNECTING), socket_count := 2,
          pending_timers := [], next_timer := 2,
          console := [ConsoleLog ''WebSocket connected'', ConsoleLog ''WebSocket disconnected'',
            ConsoleLog ''Attempting to reconnect WebSocket...'']\<rparr>)"
  by (simp add: connect_def disconnect_def onopen_def onclose_def emit_def
      clearReconnectTimer_def scheduleReconnect_def truthy_def initial_def)

section \<open>Properties of the level analyzer\<close>

lemma foldl_bytes:
  "foldl (\<lambda>acc val. acc + real (unat val)) a (xs :: 8 word list) = a + real (sum_list (map unat xs))"
  by (induction xs arbitrary: a) auto

lemma average_nonempty:
  "dataArray \<noteq> [] \<Longrightarrow>
     average dataArray = Num (real (sum_list (map unat dataArray)) / real (length dataArray))"
  unfolding average_def foldl_bytes by simp


lemma normalizedLevel_zero:
  assumes "dataArray \<noteq> []" and "\<forall>b \<in> set dataArray. b = 0"
  shows "normalizedLevel dataArray = Num 0"
proof -
  have total: "sum_list (map unat dataArray) = 0"
    using assms(2) by (induction dataArray) auto
  have "average dataArray = Num 0"
    unfolding average_nonempty [OF assms(1)] total by simp
  then show ?thesis
    by (simp add: normalizedLevel_def)
qed



section \<open>Properties of the recorder and of the session controller\<close>

text \<open>
  Claim C7. A second \<open>stopRecording\<close> right after a first one makes no call on any
  object and returns the state it was given. That state is the terminal one: not
  recording, not paused, level 0, every ref \<open>null\<close>. The first call on a recorder that
  \<open>startRecording\<close> has just set up stops the media recorder and each track, closes the
  audio context and cancels the animation frame if one was requested.
\<close>

theorem stopRecording_idempotent:
  "stopRecording (fst (stopRecording r)) = (fst (stopRecording r), [])
   \<and> isRecording (fst (stopRecording r)) = False
   \<and> isPaused (fst (stopRecording r)) = False
   \<and> audioLevel (fst (stopRecording r)) = Num 0
   \<and> mediaRecorderRef (fst (stopRecording r)) = None
   \<and> streamRef (fst (stopRecording r)) = None
   \<and> audioContextRef (fst (stopRecording r)) = None
   \<and> analyserRef (fst (stopRecording r)) = None
   \<and> sourceRef (fst (stopRecording r)) = None
   \<and> animationFrameRef (fst (stopRecording r)) = None
   \<and> snd (stopRecording (startRecording snap (Granted n) dataArray frame idle))
       = MediaRecorderStop # map TrackStop [0..<n] @ AudioContextClose #
           (if s_isRecording snap \<and> \<not> s_isPaused snap \<and> frame \<noteq> 0
            then [CancelAnimationFrame frame] else [])"
  by (simp add: stopRecording_def startRecording_def calculateAudioLevel_def idle_def Let_def)

lemma level_silence: "normalizedLevel silence = Num 0"
  by (rule normalizedLevel_zero) (simp_all add: silence_def)

lemma handleToggleMute_keeps_transport:
  "wsService (handleToggleMute api_ok outcome dataArray frame a) = wsService a"
  by (simp add: handleToggleMute_def)

lemma handleAudioData_muted:
  "s_isMuted snap \<Longrightarrow> handleAudioData snap audioData now a = a"
  by (simp add: handleAudioData_def)

text \<open>
  Claim C8 does not hold of the code. The user clicks Connect while unmuted, the socket
  opens, and the user mutes within the second that \<open>handleToggleConnection\<close> waits
  before it starts the recorder. The timeout was created in the render with
  \<open>isMuted = false\<close>, so its test \<open>!isMuted\<close> passes and \<open>startRecording\<close> runs: the
  recorder is recording while \<open>isMuted\<close> is true, and the next blob is handed to
  \<open>onAudioData\<close> as a chunk. The chunk is not sent, and the transport is untouched by the
  muting.
\<close>

theorem capture_runs_while_muted:
  "socketOpened never_throws 0 (handleToggleConnection True True mounted) = Some connected_unmuted
   \<and> startTimeoutFires (Granted 1) silence 1
         (handleToggleMute True (Granted 1) silence 1 connected_unmuted)
       = Some capturing_while_muted
   \<and> isMuted capturing_while_muted
   \<and> isRecording (hook capturing_while_muted)
   \<and> dataavailable 4096 ''GkXfo59ChoEB'' 1700000001000 capturing_while_muted
       = Some (capturing_while_muted\<lparr>produced := [''GkXfo59ChoEB'']\<rparr>)
   \<and> isConnected (wsService capturing_while_muted)"
proof -
  have first: "socketOpened never_throws 0 (handleToggleConnection True True mounted)
      = Some connected_unmuted"
    by (simp add: socketOpened_def handleToggleConnection_def mounted_def
        onConnected_def render_def idle_def connected_unmuted_def
        connect_def onopen_def emit_def clearReconnectTimer_def initial_def open_world_def)
  have second: "startTimeoutFires (Granted 1) silence 1
      (handleToggleMute True (Granted 1) silence 1 connected_unmuted) = Some capturing_while_muted"
    by (simp add: startTimeoutFires_def handleToggleMute_def connected_unmuted_def idle_def
        startRecording_def calculateAudioLevel_def level_silence capturing_while_muted_def
        Let_def)
  have third: "dataavailable 4096 ''GkXfo59ChoEB'' 1700000001000 capturing_while_muted
      = Some (capturing_while_muted\<lparr>produced := [''GkXfo59ChoEB'']\<rparr>)"
    by (simp add: dataavailable_def handleAudioData_def capturing_while_muted_def)
  have rest: "isMuted capturing_while_muted" "isRecording (hook capturing_while_muted)"
    "isConnected (wsService capturing_while_muted)"
    by (simp_all add: capturing_while_muted_def isConnected_def open_world_def)
  from first second third rest show ?thesis by blast
qed


section \<open>Properties of the segmentation buffer\<close>

lemma covers_inactive: "\<not> c_isActive c \<Longrightarrow> covers (c # xs) gs = covers xs gs"
  by (cases gs) simp_all

lemma covers_active:
  "c_isActive c \<Longrightarrow> covers (c # p @ rest) ((c # p) # gs) = covers rest gs"
  by simp

lemma step_speaker_id: "step_speaker cfg s st c = (st', out) \<Longrightarrow> g \<in> set out \<Longrightarrow> speakerId g = s"
  by (auto simp: step_speaker_def finalize_def Let_def split: option.splits if_splits)

lemma segments_from_Nil: "segments_from cfg buf [] s = force_close buf s"
  by (simp add: segments_from_def)

lemma segments_from_other:
  "speakerHint c \<noteq> s \<Longrightarrow>
     segments_from cfg buf (c # cs) s = segments_from cfg (fst (feed cfg buf c)) cs s"
proof -
  assume other: "speakerHint c \<noteq> s"
  obtain st out where step: "step_speaker cfg (speakerHint c) (buf (speakerHint c)) c = (st, out)"
    by (cases "step_speaker cfg (speakerHint c) (buf (speakerHint c)) c")
  have "\<forall>g \<in> set out. speakerId g \<noteq> s"
    using step_speaker_id [OF step] other by auto
  then have "filter (\<lambda>g. speakerId g = s) out = []"
    by (simp add: filter_empty_conv)
  then show ?thesis
    using step by (simp add: segments_from_def feed_def split: prod.splits)
qed

lemma segments_from_same:
  "speakerHint c = s \<Longrightarrow>
     segments_from cfg buf (c # cs) s =
       snd (step_speaker cfg s (buf s) c) @ segments_from cfg (fst (feed cfg buf c)) cs s"
proof -
  assume same: "speakerHint c = s"
  obtain st out where step: "step_speaker cfg s (buf s) c = (st, out)"
    by (cases "step_speaker cfg s (buf s) c")
  have "\<forall>g \<in> set out. speakerId g = s"
    using step_speaker_id [OF step] by auto
  then have "filter (\<lambda>g. speakerId g = s) out = out"
    by (simp add: filter_id_conv)
  then show ?thesis
    using step same by (simp add: segments_from_def feed_def split: prod.splits)
qed

lemma feed_other: "speakerHint c \<noteq> s \<Longrightarrow> fst (feed cfg buf c) s = buf s"
  by (simp add: feed_def split: prod.splits)

lemma feed_same: "speakerHint c = s \<Longrightarrow> fst (feed cfg buf c) s = fst (step_speaker cfg s (buf s) c)"
  by (simp add: feed_def split: prod.splits)

lemma segments_from_covers:
  "(case buf s of
      None \<Rightarrow> covers (filter (\<lambda>c. speakerHint c = s) cs) (map chunks (segments_from cfg buf cs s))
    | Some seg \<Rightarrow>
        (\<exists>p rest gs. filter (\<lambda>c. speakerHint c = s) cs = p @ rest
           \<and> map chunks (segments_from cfg buf cs s) = (o_chunks seg @ p) # gs
           \<and> covers rest gs))"
proof (induction cs arbitrary: buf)
  case Nil
  show ?case
    by (simp add: segments_from_Nil force_close_def finalize_def split: option.splits)
next
  case (Cons c cs)
  let ?buf1 = "fst (feed cfg buf c)"
  note IH = Cons.IH [of ?buf1]
  show ?case
  proof (cases "speakerHint c = s")
    case False
    then show ?thesis
      using IH by (cases "buf s") (simp_all add: segments_from_other feed_other)
  next
    case True
    show ?thesis
    proof (cases "buf s")
      case None
      show ?thesis
      proof (cases "c_isActive c")
        case False
        with None True have "?buf1 s = None" "snd (step_speaker cfg s (buf s) c) = []"
          by (simp_all add: feed_same step_speaker_def)
        with None True False IH show ?thesis
          by (simp add: segments_from_same covers_inactive)
      next
        case active: True
        with None True have st: "?buf1 s = Some \<lparr> o_startMs = capturedAtMs c,
            o_lastActiveMs = capturedAtMs c, o_chunks = [c] \<rparr>"
          and out: "snd (step_speaker cfg s (buf s) c) = []"
          by (simp_all add: feed_same step_speaker_def)
        from IH st obtain p rest gs where
          split: "filter (\<lambda>c. speakerHint c = s) cs = p @ rest"
          and segs: "map chunks (segments_from cfg ?buf1 cs s) = ([c] @ p) # gs"
          and rest: "covers rest gs"
          by auto
        from None True active split segs rest out show ?thesis
          by (simp add: segments_from_same)
      qed
    next
      case (Some seg)
      define seg1 where "seg1 = seg\<lparr> o_chunks := o_chunks seg @ [c],
        o_lastActiveMs := (if c_isActive c then capturedAtMs c else o_lastActiveMs seg) \<rparr>"
      show ?thesis
      proof (cases "capturedAtMs c - o_lastActiveMs seg1 > silenceTimeoutMs cfg
                 \<or> capturedAtMs c - o_startMs seg1 > maxSegmentMs cfg")
        case closes: True
        with Some True have st: "?buf1 s = None"
          and out: "snd (step_speaker cfg s (buf s) c) = [finalize s seg1]"
          by (simp_all add: feed_same step_speaker_def seg1_def Let_def)
        from IH st have "covers (filter (\<lambda>c. speakerHint c = s) cs)
            (map chunks (segments_from cfg ?buf1 cs s))"
          by simp
        with Some True out show ?thesis
          by (simp add: segments_from_same finalize_def seg1_def)
      next
        case stays: False
        with Some True have st: "?buf1 s = Some seg1"
          and out: "snd (step_speaker cfg s (buf s) c) = []"
          by (simp_all add: feed_same step_speaker_def seg1_def Let_def)
        from IH st obtain p rest gs where
          split: "filter (\<lambda>c. speakerHint c = s) cs = p @ rest"
          and segs: "map chunks (segments_from cfg ?buf1 cs s) = (o_chunks seg1 @ p) # gs"
          and rest: "covers rest gs"
          by auto
        have "filter (\<lambda>c. speakerHint c = s) (c # cs) = (c # p) @ rest"
          using True split by simp
        moreover have "map chunks (segments_from cfg buf (c # cs) s) = (o_chunks seg @ (c # p)) # gs"
          using True out segs by (simp add: segments_from_same seg1_def)
        ultimately show ?thesis
          using Some rest by (auto simp del: append_Cons)
      qed
    qed
  qed
qed


lemma step_speaker_well_formed:
  assumes "step_speaker cfg s st c = (st', out)"
    and "case st of None \<Rightarrow> True | Some seg \<Rightarrow> well_formed (finalize s seg)"
  shows "(case st' of None \<Rightarrow> True | Some seg \<Rightarrow> well_formed (finalize s seg))
    \<and> (\<forall>g \<in> set out. well_formed g)"
  using assms
  by (auto simp: step_speaker_def well_formed_def finalize_def Let_def
      split: option.splits if_splits list.splits)

lemma covers_concat:
  "covers xs gs \<Longrightarrow>
     subseq (concat gs) xs \<and> filter c_isActive (concat gs) = filter c_isActive xs"
proof (induction gs arbitrary: xs)
  case Nil
  then have "filter c_isActive xs = []"
    by (simp add: list_all_iff filter_empty_conv)
  then show ?case by simp
next
  case (Cons g gs)
  let ?quiet = "takeWhile (\<lambda>c. \<not> c_isActive c) xs"
  let ?ys = "dropWhile (\<lambda>c. \<not> c_isActive c) xs"
  let ?rest = "drop (length g) ?ys"
  from Cons.prems have pre: "take (length g) ?ys = g" and tail: "covers ?rest gs"
    by (simp_all add: Let_def)
  have ys: "?ys = g @ ?rest"
    using append_take_drop_id [of "length g" ?ys] pre by simp
  have xs: "xs = ?quiet @ g @ ?rest"
    using takeWhile_dropWhile_id [of "\<lambda>c. \<not> c_isActive c" xs] ys by simp
  have quiet: "filter c_isActive ?quiet = []"
    by (auto simp: filter_empty_conv dest: set_takeWhileD)
  from Cons.IH [OF tail] have sub: "subseq (concat gs) ?rest"
    and act: "filter c_isActive (concat gs) = filter c_isActive ?rest"
    by simp_all
  have "subseq (g @ concat gs) (g @ ?rest)"
    using sub by (simp only: subseq_append')
  then have "subseq (g @ concat gs) (?quiet @ g @ ?rest)"
    by (rule subseq_drop_many)
  then have part1: "subseq (concat (g # gs)) xs"
    using xs by simp
  have "filter c_isActive xs = filter c_isActive (?quiet @ g @ ?rest)"
    using xs by simp
  also have "\<dots> = filter c_isActive g @ filter c_isActive ?rest"
    using quiet by simp
  finally have part2: "filter c_isActive (concat (g # gs)) = filter c_isActive xs"
    using act by simp
  from part1 part2 show ?case by blast
qed

lemma feed_ok:
  assumes "buffer_ok buf"
  shows "buffer_ok (fst (feed cfg buf c)) \<and> (\<forall>g \<in> set (snd (feed cfg buf c)). well_formed g)"
proof -
  obtain st out where step: "step_speaker cfg (speakerHint c) (buf (speakerHint c)) c = (st, out)"
    by (cases "step_speaker cfg (speakerHint c) (buf (speakerHint c)) c")
  have "case buf (speakerHint c) of None \<Rightarrow> True
        | Some seg \<Rightarrow> well_formed (finalize (speakerHint c) seg)"
    using assms by (simp add: buffer_ok_def)
  from step_speaker_well_formed [OF step this]
  have st: "case st of None \<Rightarrow> True | Some seg \<Rightarrow> well_formed (finalize (speakerHint c) seg)"
    and out: "\<forall>g \<in> set out. well_formed g"
    by simp_all
  have "buffer_ok (buf(speakerHint c := st))"
    using assms st by (simp add: buffer_ok_def)
  with out step show ?thesis
    by (simp add: feed_def)
qed

lemma feed_all_ok:
  "buffer_ok buf \<Longrightarrow>
     buffer_ok (fst (feed_all cfg buf cs)) \<and> (\<forall>g \<in> set (snd (feed_all cfg buf cs)). well_formed g)"
proof (induction cs arbitrary: buf)
  case Nil
  then show ?case by simp
next
  case (Cons c cs)
  from feed_ok [OF Cons.prems, of cfg c]
  have ok1: "buffer_ok (fst (feed cfg buf c))"
    and out1: "\<forall>g \<in> set (snd (feed cfg buf c)). well_formed g"
    by simp_all
  from Cons.IH [OF ok1] out1 show ?case
    by (auto split: prod.splits)
qed

lemma segments_from_well_formed:
  assumes "buffer_ok buf"
  shows "\<forall>g \<in> set (segments_from cfg buf cs s). speakerId g = s \<and> well_formed g"
proof -
  from feed_all_ok [OF assms, of cfg cs]
  have ok: "buffer_ok (fst (feed_all cfg buf cs))"
    and out: "\<forall>g \<in> set (snd (feed_all cfg buf cs)). well_formed g"
    by simp_all
  have "\<forall>g \<in> set (force_close (fst (feed_all cfg buf cs)) s). speakerId g = s \<and> well_formed g"
    using ok by (auto simp: force_close_def buffer_ok_def finalize_def split: option.splits)
  with out show ?thesis
    by (cases "feed_all cfg buf cs") (auto simp: segments_from_def)
qed

text \<open>
  Claim C5, as the state machine of section 4.3 has it. For every sequence of chunks and
  every speaker, the segments of the speaker (those dispatched, then the one
  force-closed at the end) cut the speaker's chunks into consecutive runs separated by
  inactive chunks only: every active chunk is in exactly one segment, every chunk is in
  at most one, the order of arrival is kept, and the chunks left out are inactive
  chunks that arrived while the speaker was Silent. Every segment carries its speaker,
  starts at the time of its first chunk, which is active, and ends at the time of its
  last active chunk.
\<close>

theorem segments_cover_speech:
  "covers (filter (\<lambda>c. speakerHint c = s) cs) (map chunks (segments_for cfg cs s))
   \<and> subseq (concat (map chunks (segments_for cfg cs s))) (filter (\<lambda>c. speakerHint c = s) cs)
   \<and> filter c_isActive (concat (map chunks (segments_for cfg cs s)))
       = filter c_isActive (filter (\<lambda>c. speakerHint c = s) cs)
   \<and> (\<forall>g \<in> set (segments_for cfg cs s). speakerId g = s \<and> well_formed g)"
proof -
  have cov: "covers (filter (\<lambda>c. speakerHint c = s) cs) (map chunks (segments_for cfg cs s))"
    using segments_from_covers [where buf = "\<lambda>_. None" and s = s and cs = cs and cfg = cfg]
    by (simp add: segments_for_def)
  have "buffer_ok (\<lambda>_. None)"
    by (simp add: buffer_ok_def)
  then have wf: "\<forall>g \<in> set (segments_for cfg cs s). speakerId g = s \<and> well_formed g"
    unfolding segments_for_def by (rule segments_from_well_formed)
  from cov covers_concat [OF cov] wf show ?thesis by blast
qed

text \<open>
  The scenario of section 8: speech at 0, 300, 600 and 900, then silence; the segment
  \<open>[0, 900]\<close> closes at the chunk of 1500, the silent chunk at 1800 is left out, and the
  speech at 2100 opens a segment that the end of the session closes.
\<close>

lemma scenario_segments:
  "segments_for default_config
     [chunk_at 0 0 True, chunk_at 1 300 True, chunk_at 2 600 True, chunk_at 3 900 True,
      chunk_at 4 1200 False, chunk_at 5 1500 False, chunk_at 6 1800 False, chunk_at 7 2100 True]
     (Some 1)
   = [\<lparr> speakerId = Some 1, startMs = 0, endMs = 900,
        chunks = [chunk_at 0 0 True, chunk_at 1 300 True, chunk_at 2 600 True,
          chunk_at 3 900 True, chunk_at 4 1200 False, chunk_at 5 1500 False] \<rparr>,
      \<lparr> speakerId = Some 1, startMs = 2100, endMs = 2100, chunks = [chunk_at 7 2100 True] \<rparr>]"
  by (simp add: segments_for_def segments_from_def feed_def step_speaker_def finalize_def
      force_close_def default_config_def chunk_at_def Let_def)

text \<open>The theorem on the scenario.\<close>

theorem segments_cover_speech_witness:
  "covers
     [chunk_at 0 0 True, chunk_at 1 300 True, chunk_at 2 600 True, chunk_at 3 900 True,
      chunk_at 4 1200 False, chunk_at 5 1500 False, chunk_at 6 1800 False, chunk_at 7 2100 True]
     [[chunk_at 0 0 True, chunk_at 1 300 True, chunk_at 2 600 True,
          chunk_at 3 900 True, chunk_at 4 1200 False, chunk_at 5 1500 False],
      [chunk_at 7 2100 True]]
   \<and> well_formed \<lparr> speakerId = Some 1, startMs = 0, endMs = 900,
        chunks = [chunk_at 0 0 True, chunk_at 1 300 True, chunk_at 2 600 True,
          chunk_at 3 900 True, chunk_at 4 1200 False, chunk_at 5 1500 False] \<rparr>
   \<and> well_formed \<lparr> speakerId = Some 1, startMs = 2100, endMs = 2100,
        chunks = [chunk_at 7 2100 True] \<rparr>"
proof -
  have same: "speakerHint (chunk_at n t v) = Some 1" for n t v
    by (simp add: chunk_at_def)
  from segments_cover_speech [where s = "Some 1" and cfg = default_config and cs =
      "[chunk_at 0 0 True, chunk_at 1 300 True, chunk_at 2 600 True, chunk_at 3 900 True,
        chunk_at 4 1200 False, chunk_at 5 1500 False, chunk_at 6 1800 False, chunk_at 7 2100 True]"]
  show ?thesis
    unfolding scenario_segments by (simp add: same)
qed

text \<open>
  Claim C5 as stated fails: an inactive chunk that arrives while the speaker is Silent
  is in no segment, and its time lies before the range of the segment that follows.
\<close>

theorem silence_before_speech_not_covered:
  "segments_for default_config
     [chunk_at 0 0 False, chunk_at 1 300 True, chunk_at 2 600 True] (Some 1)
   = [\<lparr> speakerId = Some 1, startMs = 300, endMs = 600,
        chunks = [chunk_at 1 300 True, chunk_at 2 600 True] \<rparr>]
   \<and> chunk_at 0 0 False \<notin> set (concat (map chunks (segments_for default_config
        [chunk_at 0 0 False, chunk_at 1 300 True, chunk_at 2 600 True] (Some 1))))"
  by (simp add: segments_for_def segments_from_def feed_def step_speaker_def finalize_def
      force_close_def default_config_def chunk_at_def Let_def)

end
